theory Spec2Isabelle
  imports Main "HOL-Library.Word" "HOL-Library.Signed_Division"
begin

unbundle bit_operations_syntax

section \<open>Machine types and constants of WS2812B.h\<close>

type_synonym u8 = "8 word"
type_synonym u16 = "16 word"
type_synonym u32 = "32 word"

text \<open>\<^verbatim>\<open>#define LED_NUM 8\<close> and \<^verbatim>\<open>#define WS2812B_DATA_SIZE (24 * WS2812B_LED_NUM)\<close>.\<close>

definition LED_NUM :: nat where
  "LED_NUM = 8"

definition WS2812B_DATA_SIZE :: nat where
  "WS2812B_DATA_SIZE = 24 * LED_NUM"

section \<open>The pulse buffer (WS2812B.c)\<close>

text \<open>
  \<^verbatim>\<open>uint16_t pwmData[WS2812B_DATA_SIZE + 50]\<close> is a list of 16-bit pulse codes; every
  function that writes it takes the buffer and returns the updated one. A C loop
  \<^verbatim>\<open>for (i = a; i < b; i++) pwmData[e] = v\<close> is a \<open>fold\<close> over \<open>[a..<b]\<close> of list updates.
\<close>

definition WS2812B_SetPixelRGB :: "u16 \<Rightarrow> u8 \<Rightarrow> u8 \<Rightarrow> u8 \<Rightarrow> u16 list \<Rightarrow> u16 list" where
  "WS2812B_SetPixelRGB pixel red green blue pwmData =
     (if LED_NUM \<le> unat pixel then pwmData
      else
        let color = (push_bit 16 (ucast green :: u32) OR push_bit 8 (ucast red :: u32)
                       OR (ucast blue :: u32));
            pos = (pixel * 24 :: u16)
        in fold (\<lambda>i buf. buf[unat pos + i :=
                    (if color AND push_bit (23 - i) (1 :: u32) \<noteq> 0 then 58 else 29)])
             [0..<24] pwmData)"

definition WS2812B_Clear :: "u16 list \<Rightarrow> u16 list" where
  "WS2812B_Clear pwmData =
     fold (\<lambda>i buf. buf[i := (if i < WS2812B_DATA_SIZE then 29 else 0)])
       [0..<WS2812B_DATA_SIZE + 50] pwmData"

definition WS2812B_SetColorRGB :: "u8 \<Rightarrow> u8 \<Rightarrow> u8 \<Rightarrow> u16 list \<Rightarrow> u16 list" where
  "WS2812B_SetColorRGB red green blue pwmData =
     (let buf1 = fold (\<lambda>led buf. WS2812B_SetPixelRGB (of_nat led) red green blue buf)
                   [0..<LED_NUM] pwmData
      in fold (\<lambda>i buf. buf[i := 0]) [WS2812B_DATA_SIZE..<WS2812B_DATA_SIZE + 50] buf1)"

text \<open>
  \<^verbatim>\<open>WS2812B_Send\<close> hands \<^verbatim>\<open>pwmData\<close> with length \<^verbatim>\<open>WS2812B_DATA_SIZE + 50\<close> to the DMA
  transport and leaves the buffer as it is; the model returns the codes handed over.
\<close>

definition WS2812B_Send :: "u16 list \<Rightarrow> u16 list" where
  "WS2812B_Send pwmData = take (WS2812B_DATA_SIZE + 50) pwmData"

section \<open>Colour conversions (WS2812B.c)\<close>

text \<open>
  Expressions with a \<^verbatim>\<open>U\<close> operand are computed in 32-bit unsigned arithmetic
  (\<open>u32\<close>, with \<open>div\<close> and \<open>mod\<close> the unsigned operations); an assignment to a
  \<^verbatim>\<open>uint8_t\<close> or \<^verbatim>\<open>uint16_t\<close> truncates (\<open>ucast\<close>). In \<^verbatim>\<open>hsv_to_rgb\<close> the hue
  is below 360 once reduced, so the sector \<^verbatim>\<open>hi\<close> is at most 5 and the last branch of the
  model is \<^verbatim>\<open>case 5\<close> of the switch.
\<close>

definition hsv_to_rgb :: "u16 \<Rightarrow> u8 \<Rightarrow> u8 \<Rightarrow> u8 \<times> u8 \<times> u8" where
  "hsv_to_rgb h s v =
     (if s = 0 then
        let grey = (ucast ((ucast v * 255 :: u32) div 100) :: u8) in (grey, grey, grey)
      else
        let h1 = (h mod 360 :: u16);
            hi = (h1 div 60 :: u16);
            f = (ucast ((ucast (h1 mod 60) * 255 :: u32) div 60) :: u8);
            v255 = (ucast ((ucast v * 255 :: u32) div 100) :: u8);
            s255 = (ucast ((ucast s * 255 :: u32) div 100) :: u8);
            p = (ucast ((ucast v255 * (255 - ucast s255) :: u32) div 255) :: u8);
            q = (ucast ((ucast v255 * (255 - ucast f) :: u32) div 255) :: u8);
            t = (ucast ((ucast v255 * ucast f :: u32) div 255) :: u8)
        in if hi = 0 then (v255, t, p)
           else if hi = 1 then (q, v255, p)
           else if hi = 2 then (p, v255, t)
           else if hi = 3 then (p, q, v255)
           else if hi = 4 then (t, p, v255)
           else (v255, p, q))"

text \<open>
  In \<^verbatim>\<open>hue2rgb\<close> the operands are promoted to \<^verbatim>\<open>int\<close>: the difference \<^verbatim>\<open>q - p\<close> may be
  negative and \<^verbatim>\<open>/\<close> truncates towards zero (\<open>sdiv\<close>). All intermediate values lie
  within \<open>\<plusminus>255 * 255\<close>, so the 32-bit \<^verbatim>\<open>int\<close> never overflows; the returned value is
  truncated to \<^verbatim>\<open>uint8_t\<close>.
\<close>

definition hue2rgb :: "u8 \<Rightarrow> u8 \<Rightarrow> u8 \<Rightarrow> u8" where
  "hue2rgb p q t =
     (if t < 43 then word_of_int (uint p + ((uint q - uint p) * uint t) sdiv 43)
      else if t < 128 then q
      else if t < 171 then word_of_int (uint p + ((uint q - uint p) * (171 - uint t)) sdiv 43)
      else p)"

definition hsl_to_rgb :: "u16 \<Rightarrow> u8 \<Rightarrow> u8 \<Rightarrow> u8 \<times> u8 \<times> u8" where
  "hsl_to_rgb h s l =
     (if s = 0 then
        let grey = (ucast ((ucast l * 255 :: u32) div 100) :: u8) in (grey, grey, grey)
      else
        let h255 = (ucast ((ucast h * 255 :: u32) div 360) :: u8);
            l255 = (ucast ((ucast l * 255 :: u32) div 100) :: u8);
            s255 = (ucast ((ucast s * 255 :: u32) div 100) :: u8);
            temp_q = (ucast (if l < 50
                        then (ucast l255 * (255 + ucast s255) :: u32)
                        else (ucast (ucast (ucast l255 + ucast s255 :: u32) :: u16) * 255
                                - ucast l255 * ucast s255 :: u32)) :: u16);
            q = (ucast ((ucast temp_q :: u32) div 255) :: u8);
            p0 = (if (255 :: u32) < 2 * ucast l255
                  then (ucast (2 * ucast l255 - ucast q :: u32) :: u8) else 0);
            p = (if l < 50
                 then (ucast ((2 * ucast l255 * (255 - ucast s255) :: u32) div 255) :: u8)
                 else p0)
        in (hue2rgb p q (ucast ((ucast h255 + 85 :: u32) mod 256)),
            hue2rgb p q h255,
            hue2rgb p q (ucast ((ucast h255 + 171 :: u32) mod 256))))"

definition WS2812B_SetColorHSV :: "u16 \<Rightarrow> u8 \<Rightarrow> u8 \<Rightarrow> u16 list \<Rightarrow> u16 list" where
  "WS2812B_SetColorHSV hue sat val pwmData =
     (case hsv_to_rgb hue sat val of (r, g, b) \<Rightarrow> WS2812B_SetColorRGB r g b pwmData)"

definition WS2812B_SetPixelHSV :: "u16 \<Rightarrow> u16 \<Rightarrow> u8 \<Rightarrow> u8 \<Rightarrow> u16 list \<Rightarrow> u16 list" where
  "WS2812B_SetPixelHSV pixel hue sat val pwmData =
     (case hsv_to_rgb hue sat val of (r, g, b) \<Rightarrow> WS2812B_SetPixelRGB pixel r g b pwmData)"

definition WS2812B_SetColorHSL :: "u16 \<Rightarrow> u8 \<Rightarrow> u8 \<Rightarrow> u16 list \<Rightarrow> u16 list" where
  "WS2812B_SetColorHSL hue sat light pwmData =
     (case hsl_to_rgb hue sat light of (r, g, b) \<Rightarrow> WS2812B_SetColorRGB r g b pwmData)"

definition WS2812B_SetPixelHSL :: "u16 \<Rightarrow> u16 \<Rightarrow> u8 \<Rightarrow> u8 \<Rightarrow> u16 list \<Rightarrow> u16 list" where
  "WS2812B_SetPixelHSL pixel hue sat light pwmData =
     (case hsl_to_rgb hue sat light of (r, g, b) \<Rightarrow> WS2812B_SetPixelRGB pixel r g b pwmData)"

section \<open>Decoding the pulse buffer\<close>

text \<open>
  The wire format read back: a pulse code 58 is the bit 1, a code 29 is the bit 0, most
  significant bit first; any other code does not decode. A pixel region is the 24 codes
  at \<open>24 * i\<close>.
\<close>

fun decode_codes :: "u16 list \<Rightarrow> nat \<Rightarrow> nat option" where
  "decode_codes [] acc = Some acc"
| "decode_codes (c # cs) acc =
     (if c = 58 then decode_codes cs (2 * acc + 1)
      else if c = 29 then decode_codes cs (2 * acc)
      else None)"

definition pixel_region :: "u16 list \<Rightarrow> nat \<Rightarrow> u16 list" where
  "pixel_region buf i = take 24 (drop (24 * i) buf)"

definition decode_pixel :: "u16 list \<Rightarrow> nat \<Rightarrow> nat option" where
  "decode_pixel buf i =
     (if length (pixel_region buf i) = 24 then decode_codes (pixel_region buf i) 0 else None)"

text \<open>The GRB-packed word \<open>(green << 16) | (red << 8) | blue\<close> of an RGB triple.\<close>

definition grb_word :: "u8 \<times> u8 \<times> u8 \<Rightarrow> u32" where
  "grb_word c = (case c of (r, g, b) \<Rightarrow>
     push_bit 16 (ucast g :: u32) OR push_bit 8 (ucast r :: u32) OR (ucast b :: u32))"

definition reset_region :: "u16 list \<Rightarrow> u16 list" where
  "reset_region buf = drop WS2812B_DATA_SIZE buf"

subsection \<open>Sequences of buffer operations\<close>

datatype buffer_op =
    OpClear
  | OpSetPixelRGB u16 u8 u8 u8
  | OpSetColorRGB u8 u8 u8

fun apply_op :: "buffer_op \<Rightarrow> u16 list \<Rightarrow> u16 list" where
  "apply_op OpClear buf = WS2812B_Clear buf"
| "apply_op (OpSetPixelRGB pixel r g b) buf = WS2812B_SetPixelRGB pixel r g b buf"
| "apply_op (OpSetColorRGB r g b) buf = WS2812B_SetColorRGB r g b buf"

definition run_ops :: "buffer_op list \<Rightarrow> u16 list \<Rightarrow> u16 list" where
  "run_ops ops buf = fold apply_op ops buf"

text \<open>
  The RGB value most recently written to each pixel, as the specification reads the
  operations: clearing writes black to every pixel, a set-all writes its colour to every
  pixel, and a per-pixel set writes its colour to the pixel named if that is on the strip.
\<close>

fun written_op :: "buffer_op \<Rightarrow> (u8 \<times> u8 \<times> u8) list \<Rightarrow> (u8 \<times> u8 \<times> u8) list" where
  "written_op OpClear px = replicate LED_NUM (0, 0, 0)"
| "written_op (OpSetPixelRGB pixel r g b) px =
     (if unat pixel < LED_NUM then px[unat pixel := (r, g, b)] else px)"
| "written_op (OpSetColorRGB r g b) px = replicate LED_NUM (r, g, b)"

definition last_written :: "buffer_op list \<Rightarrow> (u8 \<times> u8 \<times> u8) list" where
  "last_written ops = fold written_op ops (replicate LED_NUM (0, 0, 0))"

subsection \<open>Auxiliary notions of the specification\<close>

definition clamp100 :: "u8 \<Rightarrow> u8" where
  "clamp100 x = (if 100 < x then 100 else x)"

definition peak_channel :: "u8 \<times> u8 \<times> u8 \<Rightarrow> u8" where
  "peak_channel c = (case c of (r, g, b) \<Rightarrow> max r (max g b))"

section \<open>The effect engine (ws2812b_Effects.c, WS2812B_Effects.h)\<close>

text \<open>
  The enumerations of the header, in their order of declaration, with the integer values
  the enumerators have.
\<close>

datatype ws2812b_effect_t =
    EFFECT_STATIC_COLOR
  | EFFECT_RAINBOW_CHASE
  | EFFECT_FIRE
  | EFFECT_BREATHE
  | EFFECT_THEATER_CHASE
  | EFFECT_TWINKLE

datatype color_space_t = COLOR_HSV | COLOR_HSL | COLOR_RGB

fun effect_value :: "ws2812b_effect_t \<Rightarrow> int" where
  "effect_value EFFECT_STATIC_COLOR = 0"
| "effect_value EFFECT_RAINBOW_CHASE = 1"
| "effect_value EFFECT_FIRE = 2"
| "effect_value EFFECT_BREATHE = 3"
| "effect_value EFFECT_THEATER_CHASE = 4"
| "effect_value EFFECT_TWINKLE = 5"

definition effect_of_value :: "int \<Rightarrow> ws2812b_effect_t" where
  "effect_of_value k =
     (if k = 0 then EFFECT_STATIC_COLOR
      else if k = 1 then EFFECT_RAINBOW_CHASE
      else if k = 2 then EFFECT_FIRE
      else if k = 3 then EFFECT_BREATHE
      else if k = 4 then EFFECT_THEATER_CHASE
      else EFFECT_TWINKLE)"

text \<open>The structure \<^verbatim>\<open>ws2812b_effects_t\<close>; \<^verbatim>\<open>int8_t\<close> fields are 8-bit words read with \<open>sint\<close>.\<close>

record ws2812b_effects_t =
  current_effect :: ws2812b_effect_t
  hue :: u16
  brightness :: u8
  breathe_direction :: u8
  theater_frame :: u8
  effect_speed :: u32
  auto_cycle :: bool
  cycle_duration :: u32

text \<open>
  The static variables of ws2812b_Effects.c: the six at file scope, \<^verbatim>\<open>last_cycle\<close> of
  \<^verbatim>\<open>WS2812B_Effects_Handle\<close> and \<^verbatim>\<open>chase_offset\<close> of \<^verbatim>\<open>WS2812B_RainbowChase\<close>. The
  file-scope \<^verbatim>\<open>theater_frame\<close> is named \<open>theater_frame_static\<close>, apart from the field of
  the structure.
\<close>

record effects_statics =
  rainbow_hue :: u16
  breathe_val :: u8
  breathe_dir :: u8
  theater_frame_static :: u8
  global_brightness :: u8
  global_speed :: u8
  last_cycle :: u32
  chase_offset :: u16

definition initial_statics :: effects_statics where
  "initial_statics =
     \<lparr>rainbow_hue = 0, breathe_val = 50, breathe_dir = 1, theater_frame_static = 0,
      global_brightness = 100, global_speed = 50, last_cycle = 0, chase_offset = 0\<rparr>"

text \<open>
  The effect functions drive the strip through functions that ws2812b_Effects.c calls but
  does not define, and through \<^verbatim>\<open>HAL_Delay\<close>. Each effect returns the updated statics and,
  in order, the calls it makes; an argument is recorded with the value of the C argument
  expression.
\<close>

datatype driver_call =
    WS2812_Send
  | WS2812_Clear
  | ws2812b_set_pixel_hsv int int int int
  | WS2812b_SetPixelHSL int int int int
  | ws2812b_set_pixel_rgb int int int int
  | ws2812b_set_color_hsv int int int
  | WS2812b_Set_Color_HSL int int int
  | ws2812b_set_color_rgb int int int
  | ws2812b_theater_chase int int
  | ws2812b_fire_effect
  | ws2812b_pastel_loop
  | HAL_Delay int


definition WS2812B_Effects_Init :: "ws2812b_effects_t \<Rightarrow> ws2812b_effects_t" where
  "WS2812B_Effects_Init effects =
     effects\<lparr>current_effect := EFFECT_RAINBOW_CHASE, hue := 0, brightness := 50,
       breathe_direction := 1, theater_frame := 0, effect_speed := 50,
       auto_cycle := True, cycle_duration := 5000\<rparr>"

definition rainbow_pixel_rgb :: "u16 \<Rightarrow> nat \<Rightarrow> driver_call" where
  "rainbow_pixel_rgb rh i =
     (let wheel_pos = (word_of_int ((uint rh + (int i * 255) div int LED_NUM) mod 255) :: u8)
      in if wheel_pos < 85 then
           ws2812b_set_pixel_rgb (int i) (255 - uint wheel_pos * 3) 0 (uint wheel_pos * 3)
         else if wheel_pos < 170 then
           let wheel_pos = (word_of_int (uint wheel_pos - 85) :: u8)
           in ws2812b_set_pixel_rgb (int i) 0 (uint wheel_pos * 3) (255 - uint wheel_pos * 3)
         else
           let wheel_pos = (word_of_int (uint wheel_pos - 170) :: u8)
           in ws2812b_set_pixel_rgb (int i) (uint wheel_pos * 3) (255 - uint wheel_pos * 3) 0)"

definition WS2812B_Rainbow :: "color_space_t \<Rightarrow> effects_statics \<Rightarrow> effects_statics \<times> driver_call list" where
  "WS2812B_Rainbow colorspace st =
     (let led_hue = (\<lambda>i. (word_of_int
                      ((uint (rainbow_hue st) + (int i * 360) div int LED_NUM) mod 360) :: u16));
          pixels = (case colorspace of
              COLOR_HSV \<Rightarrow> map (\<lambda>i. ws2812b_set_pixel_hsv (int i) (uint (led_hue i)) 100
                                      (uint (global_brightness st))) [0..<LED_NUM]
            | COLOR_HSL \<Rightarrow> map (\<lambda>i. WS2812b_SetPixelHSL (int i) (uint (led_hue i)) 100 50)
                             [0..<LED_NUM]
            | COLOR_RGB \<Rightarrow> map (rainbow_pixel_rgb (rainbow_hue st)) [0..<LED_NUM])
      in (st\<lparr>rainbow_hue := word_of_int ((uint (rainbow_hue st) + 2) mod 360)\<rparr>,
          pixels @ [WS2812_Send, HAL_Delay (100 - uint (global_speed st))]))"



definition WS2812B_Breathe ::
  "color_space_t \<Rightarrow> u16 \<Rightarrow> u8 \<Rightarrow> u8 \<Rightarrow> effects_statics \<Rightarrow> effects_statics \<times> driver_call list" where
  "WS2812B_Breathe colorspace hue_or_red sat_or_green val_or_blue st =
     (let colour = (case colorspace of
              COLOR_HSV \<Rightarrow> ws2812b_set_color_hsv (uint hue_or_red) (uint sat_or_green)
                             (uint (breathe_val st))
            | COLOR_HSL \<Rightarrow> WS2812b_Set_Color_HSL (uint hue_or_red) (uint sat_or_green)
                             (uint (breathe_val st))
            | COLOR_RGB \<Rightarrow>
                let r = (word_of_int ((uint hue_or_red * uint (breathe_val st)) div 100) :: u8);
                    g = (word_of_int ((uint sat_or_green * uint (breathe_val st)) div 100) :: u8);
                    b = (word_of_int ((uint val_or_blue * uint (breathe_val st)) div 100) :: u8)
                in ws2812b_set_color_rgb (uint r) (uint g) (uint b));
          bv = (word_of_int (uint (breathe_val st) + sint (breathe_dir st)) :: u8);
          bd = (if 90 \<le> bv \<or> bv \<le> 10
                then (word_of_int (- sint (breathe_dir st)) :: u8) else breathe_dir st)
      in (st\<lparr>breathe_val := bv, breathe_dir := bd\<rparr>,
          [colour, WS2812_Send, HAL_Delay (150 - uint (global_speed st))]))"

definition WS2812B_SolidColor ::
  "color_space_t \<Rightarrow> u16 \<Rightarrow> u8 \<Rightarrow> u8 \<Rightarrow> effects_statics \<Rightarrow> effects_statics \<times> driver_call list" where
  "WS2812B_SolidColor colorspace hue_or_red sat_or_green val_or_blue st =
     (st, [case colorspace of
              COLOR_HSV \<Rightarrow> ws2812b_set_color_hsv (uint hue_or_red) (uint sat_or_green)
                             (uint val_or_blue)
            | COLOR_HSL \<Rightarrow> WS2812b_Set_Color_HSL (uint hue_or_red) (uint sat_or_green)
                             (uint val_or_blue)
            | COLOR_RGB \<Rightarrow> ws2812b_set_color_rgb (uint hue_or_red) (uint sat_or_green)
                             (uint val_or_blue),
           WS2812_Send])"


definition WS2812B_Fire :: "effects_statics \<Rightarrow> effects_statics \<times> driver_call list" where
  "WS2812B_Fire st =
     (st, [ws2812b_fire_effect, WS2812_Send, HAL_Delay (100 - uint (global_speed st))])"


definition WS2812B_SetBrightness :: "u8 \<Rightarrow> effects_statics \<Rightarrow> effects_statics" where
  "WS2812B_SetBrightness b st =
     (let st1 = st\<lparr>global_brightness := b\<rparr>
      in if 100 < global_brightness st1 then st1\<lparr>global_brightness := 100\<rparr> else st1)"


text \<open>
  \<^verbatim>\<open>WS2812B_Effects_Handle\<close> reads the millisecond tick twice: \<open>tick\<close> in the condition and
  \<open>tick'\<close> when it stores \<^verbatim>\<open>last_cycle\<close>. The subtraction is unsigned 32-bit.
\<close>

definition cycle_due :: "ws2812b_effects_t \<Rightarrow> effects_statics \<Rightarrow> u32 \<Rightarrow> bool" where
  "cycle_due effects st tick = (auto_cycle effects \<and> cycle_duration effects < tick - last_cycle st)"

definition WS2812B_Effects_Handle ::
  "ws2812b_effects_t \<Rightarrow> effects_statics \<Rightarrow> u32 \<Rightarrow> u32
     \<Rightarrow> ws2812b_effects_t \<times> effects_statics \<times> driver_call list" where
  "WS2812B_Effects_Handle effects st tick tick' =
     (let due = cycle_due effects st tick;
          e1 = (if due
                then effects\<lparr>current_effect :=
                       effect_of_value ((effect_value (current_effect effects) + 1) mod 6)\<rparr>
                else effects);
          st1 = (if due then st\<lparr>last_cycle := tick'\<rparr> else st);
          pre = (if due then [WS2812_Clear] else [])
      in case current_effect e1 of
           EFFECT_STATIC_COLOR \<Rightarrow>
             (case WS2812B_SolidColor COLOR_HSV (hue e1) 100 (global_brightness st1) st1 of
                (st2, cs) \<Rightarrow>
                  (e1\<lparr>hue := word_of_int ((uint (hue e1) + 1) mod 360)\<rparr>, st2,
                   pre @ cs @ [WS2812_Send]))
         | EFFECT_RAINBOW_CHASE \<Rightarrow>
             (case WS2812B_Rainbow COLOR_HSV st1 of
                (st2, cs) \<Rightarrow> (e1, st2, pre @ cs @ [WS2812_Send]))
         | EFFECT_FIRE \<Rightarrow>
             (case WS2812B_Fire st1 of
                (st2, cs) \<Rightarrow> (e1, st2, pre @ cs @ [WS2812_Send]))
         | EFFECT_BREATHE \<Rightarrow>
             (case WS2812B_Breathe COLOR_HSV (hue e1) 100 (global_brightness st1) st1 of
                (st2, cs) \<Rightarrow>
                  (e1\<lparr>hue := word_of_int ((uint (hue e1) + 1) mod 360)\<rparr>, st2,
                   pre @ cs @ [WS2812_Send]))
         | EFFECT_THEATER_CHASE \<Rightarrow>
             (e1\<lparr>theater_frame := word_of_int ((uint (theater_frame e1) + 1) mod 3),
                 hue := word_of_int ((uint (hue e1) + 5) mod 360)\<rparr>, st1,
              pre @ [ws2812b_theater_chase (uint (hue e1)) (uint (theater_frame e1)), WS2812_Send])
         | EFFECT_TWINKLE \<Rightarrow>
             (e1, st1, pre @ [WS2812b_Set_Color_HSL 300 100 50, WS2812_Send]))"

definition WS2812B_Effects_SetEffect ::
  "ws2812b_effects_t \<Rightarrow> ws2812b_effect_t \<Rightarrow> ws2812b_effects_t \<times> driver_call list" where
  "WS2812B_Effects_SetEffect effects new_effect =
     (effects\<lparr>current_effect := new_effect, auto_cycle := False\<rparr>, [WS2812_Clear])"

text \<open>The fixed cyclic order of the specification.\<close>

fun next_effect :: "ws2812b_effect_t \<Rightarrow> ws2812b_effect_t" where
  "next_effect EFFECT_STATIC_COLOR = EFFECT_RAINBOW_CHASE"
| "next_effect EFFECT_RAINBOW_CHASE = EFFECT_FIRE"
| "next_effect EFFECT_FIRE = EFFECT_BREATHE"
| "next_effect EFFECT_BREATHE = EFFECT_THEATER_CHASE"
| "next_effect EFFECT_THEATER_CHASE = EFFECT_TWINKLE"
| "next_effect EFFECT_TWINKLE = EFFECT_STATIC_COLOR"

text \<open>Breathe ticks in sequence, each with its own arguments.\<close>

fun breathe_ticks ::
  "(color_space_t \<times> u16 \<times> u8 \<times> u8) list \<Rightarrow> effects_statics \<Rightarrow> effects_statics" where
  "breathe_ticks [] st = st"
| "breathe_ticks ((cs, h, s, v) # as) st = breathe_ticks as (fst (WS2812B_Breathe cs h s v st))"

text \<open>
  The scaling of a percentage to a byte, \<^verbatim>\<open>(x * 255U) / 100U\<close> stored in a \<^verbatim>\<open>uint8_t\<close>, as
  both conversions compute it.
\<close>

definition scale_percent :: "u8 \<Rightarrow> u8" where
  "scale_percent x = ucast ((ucast x * 255 :: u32) div 100)"

text \<open>The invariant of the breathe ramp: inside the bounds, and turned inwards at a bound.\<close>

definition breathe_inv :: "effects_statics \<Rightarrow> bool" where
  "breathe_inv st =
     (10 \<le> breathe_val st \<and> breathe_val st \<le> 90
      \<and> (breathe_dir st = 1 \<or> breathe_dir st = - 1)
      \<and> (breathe_val st = 90 \<longrightarrow> breathe_dir st = - 1)
      \<and> (breathe_val st = 10 \<longrightarrow> breathe_dir st = 1))"

text \<open>
  The code \<^verbatim>\<open>WS2812B_SetPixelRGB\<close> stores at offset \<open>k\<close> of a pixel whose GRB word is \<open>c\<close>,
  and the relation between a pixel array and the pulse buffer that encodes it.
\<close>

definition pulse_code :: "u32 \<Rightarrow> nat \<Rightarrow> u16" where
  "pulse_code c k = (if bit c (23 - k) then 58 else 29)"

definition encodes :: "(u8 \<times> u8 \<times> u8) list \<Rightarrow> u16 list \<Rightarrow> bool" where
  "encodes px buf =
     (length px = LED_NUM \<and> length buf = WS2812B_DATA_SIZE + 50
      \<and> (\<forall>j < WS2812B_DATA_SIZE. buf ! j = pulse_code (grb_word (px ! (j div 24))) (j mod 24))
      \<and> (\<forall>j. WS2812B_DATA_SIZE \<le> j \<and> j < WS2812B_DATA_SIZE + 50 \<longrightarrow> buf ! j = 0))"

section \<open>Properties of the colour conversions\<close>

lemma sdiv_nonneg: "0 \<le> k \<Longrightarrow> 0 < l \<Longrightarrow> (k :: int) sdiv l = k div l"
  by (cases "k = 0") (simp_all add: signed_divide_int_def)

lemma ramp_bound:
  assumes "0 \<le> d" "0 \<le> c" "c \<le> 43"
  shows "0 \<le> (d * c) sdiv 43 \<and> (d * c) sdiv 43 \<le> (d :: int)"
proof -
  have nn: "0 \<le> d * c" using assms by simp
  have eq: "(d * c) sdiv 43 = (d * c) div 43" using nn by (simp add: sdiv_nonneg)
  have "d * c \<le> d * 43" using assms by (simp add: mult_left_mono)
  then have "(d * c) div 43 \<le> (d * 43) div 43" by (rule zdiv_mono1) simp
  then have "(d * c) div 43 \<le> d" by simp
  moreover have "0 \<le> (d * c) div 43" using nn by (simp add: pos_imp_zdiv_nonneg_iff)
  ultimately show ?thesis using eq by simp
qed

lemma ramp_word:
  assumes "p \<le> q" "0 \<le> c" "c \<le> 43"
  shows "p \<le> (word_of_int (uint p + ((uint q - uint p) * c) sdiv 43) :: u8)
       \<and> (word_of_int (uint p + ((uint q - uint p) * c) sdiv 43) :: u8) \<le> q"
proof -
  let ?d = "uint q - uint p"
  let ?x = "uint p + (?d * c) sdiv 43"
  have d: "0 \<le> ?d" using assms(1) by (simp add: word_le_def)
  have b: "0 \<le> (?d * c) sdiv 43 \<and> (?d * c) sdiv 43 \<le> ?d"
    using ramp_bound [OF d assms(2) assms(3)] .
  have lo: "uint p \<le> ?x" and hi: "?x \<le> uint q" using b by simp_all
  have "0 \<le> ?x" using lo uint_ge_0 [of p] by linarith
  moreover have "?x < 2 ^ 8" using hi uint_lt2p [of q] by simp
  ultimately have "take_bit LENGTH(8) ?x = ?x"
    by (intro take_bit_int_eq_self) simp_all
  then have u: "uint (word_of_int ?x :: u8) = ?x"
    by (simp only: uint_word_of_int_eq)
  show ?thesis using lo hi u by (simp add: word_le_def)
qed

text \<open>
  C10. For all bytes \<open>p \<le> q\<close> and every wheel position \<open>t\<close>, \<open>hue2rgb p q t\<close> lies in
  \<open>[p, q]\<close>: neither ramp leaves the interval, and the flat segments return \<open>q\<close> and \<open>p\<close>.
\<close>

theorem hue2rgb_within:
  "p \<le> q \<Longrightarrow> p \<le> hue2rgb p q t \<and> hue2rgb p q t \<le> q"
proof -
  assume pq: "p \<le> q"
  show ?thesis
  proof (cases "t < 43")
    case True
    then have "uint t \<le> 43" by (simp add: word_less_def)
    with pq True show ?thesis
      using ramp_word [of p q "uint t"] by (simp add: hue2rgb_def)
  next
    case F1: False
    show ?thesis
    proof (cases "t < 128")
      case True
      with F1 pq show ?thesis by (simp add: hue2rgb_def)
    next
      case F2: False
      show ?thesis
      proof (cases "t < 171")
        case True
        have "128 \<le> uint t" using F2 by (simp add: word_less_def not_less word_le_def)
        moreover have "uint t < 171" using True by (simp add: word_less_def)
        ultimately have "0 \<le> 171 - uint t" "171 - uint t \<le> 43" by simp_all
        with pq True F1 F2 show ?thesis
          using ramp_word [of p q "171 - uint t"] by (simp add: hue2rgb_def)
      next
        case False
        with F1 F2 pq show ?thesis by (simp add: hue2rgb_def)
      qed
    qed
  qed
qed

theorem hue2rgb_within_witness:
  "(10 :: u8) \<le> 200 \<and> 10 \<le> hue2rgb 10 200 20 \<and> hue2rgb 10 200 20 \<le> 200"
  using hue2rgb_within [of 10 200 20] by simp

text \<open>
  C7, as the code has it. \<open>HSL(0,100,50)\<close> is \<open>(255, 0, 0)\<close> and \<open>HSL(240,100,50)\<close> is
  \<open>(0, 5, 255)\<close>: the endpoints are \<open>p = 0\<close> and \<open>q = 255\<close>, each channel is the
  four-segment \<open>hue2rgb\<close> at its wheel position, and the peak channel is exactly 255.
\<close>

theorem hsl_red_blue_fixtures:
  "hsl_to_rgb 0 100 50 = (hue2rgb 0 255 85, hue2rgb 0 255 0, hue2rgb 0 255 171)
   \<and> hsl_to_rgb 0 100 50 = (255, 0, 0)
   \<and> hsl_to_rgb 240 100 50 = (hue2rgb 0 255 255, hue2rgb 0 255 170, hue2rgb 0 255 85)
   \<and> hsl_to_rgb 240 100 50 = (0, 5, 255)
   \<and> peak_channel (hsl_to_rgb 0 100 50) = 255
   \<and> peak_channel (hsl_to_rgb 240 100 50) = 255"
  by (simp add: hsl_to_rgb_def hue2rgb_def Let_def peak_channel_def)

text \<open>C7 as stated fails: at neither input is the peak channel below 255.\<close>

theorem hsl_peak_below_255_counterexample:
  "\<not> (peak_channel (hsl_to_rgb 0 100 50) < 255)
   \<and> \<not> (peak_channel (hsl_to_rgb 240 100 50) < 255)"
  by (simp add: hsl_to_rgb_def hue2rgb_def Let_def peak_channel_def)

text \<open>
  \<^verbatim>\<open>hsv_to_rgb\<close> reduces the hue modulo 360 itself, so for every 16-bit hue its output
  is that of the wrapped hue.
\<close>

lemma mod_360_idem: "((h :: u16) mod 360) mod 360 = h mod 360"
  by (rule word_unat_eq_iff [THEN iffD2]) (simp add: unat_mod)

lemma hsv_to_rgb_hue_wrap: "hsv_to_rgb (h mod 360) s v = hsv_to_rgb h s v"
  by (simp add: hsv_to_rgb_def mod_360_idem)

text \<open>
  C2 at hue 360 (inside \<open>[0,1080)\<close>), saturation 100, lightness 50: \<^verbatim>\<open>hsl_to_rgb\<close> does not
  reduce the hue, scales 360 to the wheel position 255 and returns \<open>(255, 0, 5)\<close>, whereas
  the wrapped hue 0 gives \<open>(255, 0, 0)\<close>.
\<close>

theorem hsl_to_rgb_hue_360:
  "hsl_to_rgb 360 100 50 = (255, 0, 5)
   \<and> hsl_to_rgb (360 mod 360) 100 50 = (255, 0, 0)
   \<and> hsl_to_rgb 360 100 50 \<noteq> hsl_to_rgb (360 mod 360) 100 50"
  by (simp add: hsl_to_rgb_def hue2rgb_def Let_def)

lemma scale_unat: "unat (scale_percent x) = (unat x * 255 div 100) mod 256"
  unfolding scale_percent_def
proof -
  have "unat x < 2 ^ LENGTH(8)" by (rule unsigned_less)
  then have lt: "unat x < 256" by simp
  have u: "unat (ucast x :: u32) = unat x"
    using lt by (simp add: unsigned_ucast_eq take_bit_nat_eq_self)
  have m: "unat (ucast x * 255 :: u32) = unat x * 255"
    using lt by (simp add: unat_word_ariths u)
  have "unat ((ucast x * 255 :: u32) div 100) = unat x * 255 div 100"
    by (simp only: unat_div m) simp
  then show "unat (ucast ((ucast x * 255 :: u32) div 100) :: u8) = unat x * 255 div 100 mod 256"
    by (simp only: unsigned_ucast_eq take_bit_eq_mod) simp
qed

lemma clamp100_id: "x \<le> 100 \<Longrightarrow> clamp100 x = x"
  by (simp add: clamp100_def not_less [symmetric])

text \<open>
  C3, as the code has it. Neither conversion clamps. For saturation and value or lightness
  within \<open>[0,100]\<close> the output is that of the clamped inputs; beyond 100 the scaled
  quantity \<open>x * 255 / 100\<close> is truncated to 8 bits, so an achromatic input with value or
  lightness \<open>y\<close> gives \<open>(y * 255 div 100) mod 256\<close> on every channel.
\<close>

theorem conversions_clamp_in_range:
  "s \<le> 100 \<Longrightarrow> x \<le> 100 \<Longrightarrow>
     hsv_to_rgb h s x = hsv_to_rgb h (clamp100 s) (clamp100 x)
   \<and> hsl_to_rgb h s x = hsl_to_rgb h (clamp100 s) (clamp100 x)
   \<and> (case hsv_to_rgb h 0 y of (r, g, b) \<Rightarrow>
        unat r = (unat y * 255 div 100) mod 256 \<and> g = r \<and> b = r)
   \<and> (case hsl_to_rgb h 0 y of (r, g, b) \<Rightarrow>
        unat r = (unat y * 255 div 100) mod 256 \<and> g = r \<and> b = r)"
proof -
  assume "s \<le> 100" "x \<le> 100"
  then have c: "clamp100 s = s" "clamp100 x = x" by (simp_all add: clamp100_id)
  have v: "hsv_to_rgb h 0 y = (scale_percent y, scale_percent y, scale_percent y)"
    by (simp add: hsv_to_rgb_def scale_percent_def Let_def)
  have l: "hsl_to_rgb h 0 y = (scale_percent y, scale_percent y, scale_percent y)"
    by (simp add: hsl_to_rgb_def scale_percent_def Let_def)
  show ?thesis
    unfolding c v l by (simp only: prod.case scale_unat simp_thms)
qed

theorem conversions_clamp_in_range_witness:
  "(100 :: u8) \<le> 100 \<and> (50 :: u8) \<le> 100
   \<and> hsv_to_rgb 120 100 50 = hsv_to_rgb 120 (clamp100 100) (clamp100 50)
   \<and> hsl_to_rgb 120 100 50 = hsl_to_rgb 120 (clamp100 100) (clamp100 50)
   \<and> (case hsv_to_rgb 120 0 200 of (r, g, b) \<Rightarrow>
        unat r = (unat (200 :: u8) * 255 div 100) mod 256 \<and> g = r \<and> b = r)
   \<and> (case hsl_to_rgb 120 0 200 of (r, g, b) \<Rightarrow>
        unat r = (unat (200 :: u8) * 255 div 100) mod 256 \<and> g = r \<and> b = r)"
  using conversions_clamp_in_range [of 100 50 120 200] by simp

text \<open>
  C3 as stated fails at saturation 0 and value (lightness) 200: the output is grey 254,
  the output for the clamped value 100 is grey 255.
\<close>

theorem conversions_clamp_counterexample:
  "hsv_to_rgb 0 0 200 \<noteq> hsv_to_rgb 0 (clamp100 0) (clamp100 200)
   \<and> hsl_to_rgb 0 0 200 \<noteq> hsl_to_rgb 0 (clamp100 0) (clamp100 200)
   \<and> hsv_to_rgb 0 0 200 = (254, 254, 254) \<and> hsv_to_rgb 0 0 100 = (255, 255, 255)"
  by (simp add: hsv_to_rgb_def hsl_to_rgb_def clamp100_def)

section \<open>Properties of the pulse buffer\<close>

text \<open>
  C8. For a pixel index at or beyond the strip length, the RGB, HSV and HSL per-pixel
  setters all return the pulse buffer unchanged.
\<close>

theorem set_pixel_out_of_range:
  "LED_NUM \<le> unat pixel \<Longrightarrow>
     WS2812B_SetPixelRGB pixel r g b buf = buf
   \<and> WS2812B_SetPixelHSV pixel h s v buf = buf
   \<and> WS2812B_SetPixelHSL pixel h' s' l buf = buf"
  by (simp add: WS2812B_SetPixelRGB_def WS2812B_SetPixelHSV_def WS2812B_SetPixelHSL_def
      split: prod.splits)

theorem set_pixel_out_of_range_witness:
  "LED_NUM \<le> unat (8 :: u16)
   \<and> WS2812B_SetPixelRGB 8 1 2 3 [58, 29, 0] = [58, 29, 0]
   \<and> WS2812B_SetPixelHSV 8 120 100 50 [58, 29, 0] = [58, 29, 0]
   \<and> WS2812B_SetPixelHSL 8 240 100 50 [58, 29, 0] = [58, 29, 0]"
  using set_pixel_out_of_range [of 8 1 2 3 "[58, 29, 0]" 120 100 50 240 100 50]
  by (simp add: LED_NUM_def)

subsection \<open>Loops over the buffer\<close>

lemma fold_update_length: "length (fold (\<lambda>i b. b[g i := f i]) xs buf) = length buf"
  by (induction xs arbitrary: buf) simp_all

lemma fold_update_nth:
  "j < length buf \<Longrightarrow>
     fold (\<lambda>i b. b[i := f i]) [a..<b] buf ! j = (if a \<le> j \<and> j < b then f j else buf ! j)"
proof (induction b)
  case 0
  then show ?case by simp
next
  case (Suc b)
  show ?case
  proof (cases "a \<le> b")
    case True
    then show ?thesis
      using Suc by (auto simp: fold_update_length nth_list_update less_Suc_eq)
  next
    case False
    then show ?thesis by auto
  qed
qed

lemma fold_update_shift:
  "fold (\<lambda>i b. b[k + i := f i]) [0..<n] buf = fold (\<lambda>i b. b[i := f (i - k)]) [k..<n + k] buf"
proof -
  have "fold (\<lambda>i b. b[i := f (i - k)]) (map (\<lambda>i. i + k) [0..<n]) buf =
          fold (\<lambda>i b. b[k + i := f i]) [0..<n] buf"
    by (simp add: fold_map comp_def add.commute)
  then show ?thesis by (simp only: map_add_upt)
qed

lemma bit_test: "((c :: u32) AND 2 ^ n \<noteq> 0) = bit c n"
  using bit_iff_and_push_bit_not_eq_0 [of c n] by simp

lemma unat_pixel_pos: "unat (pixel :: u16) < 8 \<Longrightarrow> unat (pixel * 24) = 24 * unat pixel"
  by (simp add: unat_word_ariths)

lemma set_pixel_length: "length (WS2812B_SetPixelRGB pixel r g b buf) = length buf"
  by (simp add: WS2812B_SetPixelRGB_def Let_def fold_update_length)

lemma set_pixel_nth:
  assumes "unat pixel < LED_NUM" "j < length buf"
  shows "WS2812B_SetPixelRGB pixel r g b buf ! j =
           (if 24 * unat pixel \<le> j \<and> j < 24 * unat pixel + 24
            then pulse_code (grb_word (r, g, b)) (j - 24 * unat pixel) else buf ! j)"
proof -
  have p: "unat (pixel * 24) = 24 * unat pixel"
    using assms(1) by (simp add: unat_pixel_pos LED_NUM_def)
  have "WS2812B_SetPixelRGB pixel r g b buf =
          fold (\<lambda>i b'. b'[24 * unat pixel + i := pulse_code (grb_word (r, g, b)) i]) [0..<24] buf"
    using assms(1)
    by (simp add: WS2812B_SetPixelRGB_def Let_def p pulse_code_def grb_word_def
        bit_test not_le [symmetric])
  then have "WS2812B_SetPixelRGB pixel r g b buf =
          fold (\<lambda>i b'. b'[i := pulse_code (grb_word (r, g, b)) (i - 24 * unat pixel)])
            [24 * unat pixel..<24 + 24 * unat pixel] buf"
    by (simp only: fold_update_shift)
  then show ?thesis
    using fold_update_nth [OF assms(2)] by (simp add: add.commute)
qed


lemma grb_word_24: "take_bit 24 (grb_word c) = grb_word c"
  by (cases c) (rule bit_eqI, auto simp: grb_word_def bit_simps dest: bit_imp_le_length)

lemma decode_step:
  "decode_codes ((if b then 58 else 29) # cs) acc = decode_codes cs (2 * acc + of_bool b)"
  by simp

lemma decode_msb_first:
  "decode_codes (map (\<lambda>k. if bit (c :: u32) (n - Suc k) then 58 else 29) [0..<n]) acc =
     Some (acc * 2 ^ n + take_bit n (unat c))"
proof (induction n arbitrary: acc)
  case 0
  then show ?case by simp
next
  case (Suc n)
  have l: "[0..<Suc n] = 0 # map Suc [0..<n]"
    by (simp add: upt_conv_Cons map_Suc_upt del: upt_Suc)
  have b: "bit (unat c) n = bit c n" by (simp add: bit_simps)
  have t: "take_bit (Suc n) (unat c) = 2 ^ n * of_bool (bit c n) + take_bit n (unat c)"
    by (simp only: take_bit_Suc_from_most b)
  have "decode_codes (map (\<lambda>k. if bit c (Suc n - Suc k) then 58 else 29) [0..<Suc n]) acc =
          decode_codes (map (\<lambda>k. if bit c (n - Suc k) then 58 else 29) [0..<n])
            (2 * acc + of_bool (bit c n))"
    by (simp only: l list.map map_map comp_def decode_step diff_Suc_Suc diff_zero)
  also have "\<dots> = Some ((2 * acc + of_bool (bit c n)) * 2 ^ n + take_bit n (unat c))"
    by (rule Suc.IH)
  also have "(2 * acc + of_bool (bit c n)) * 2 ^ n + take_bit n (unat c) =
          acc * 2 ^ Suc n + take_bit (Suc n) (unat c)"
    by (simp only: t) (simp add: algebra_simps)
  finally show ?case .
qed

lemma decode_pulse_codes:
  "decode_codes (map (pulse_code (grb_word c)) [0..<24]) 0 = Some (unat (grb_word c))"
proof -
  have f: "pulse_code (grb_word c) = (\<lambda>k. if bit (grb_word c) (24 - Suc k) then 58 else 29)"
    by (rule ext) (simp add: pulse_code_def)
  have "take_bit 24 (unat (grb_word c)) = unat (grb_word c)"
    by (simp only: unsigned_take_bit_eq [symmetric] grb_word_24)
  then show ?thesis
    using decode_msb_first [of "grb_word c" 24 0] by (simp only: f) simp
qed

lemma pulse_code_black: "pulse_code (grb_word (0, 0, 0)) k = 29"
  by (simp add: pulse_code_def grb_word_def)

lemma clear_encodes:
  assumes "length buf = WS2812B_DATA_SIZE + 50"
  shows "encodes (replicate LED_NUM (0, 0, 0)) (WS2812B_Clear buf)"
proof -
  have n: "j < WS2812B_DATA_SIZE + 50 \<Longrightarrow>
      WS2812B_Clear buf ! j = (if j < WS2812B_DATA_SIZE then 29 else 0)" for j
    using assms fold_update_nth [of j buf "\<lambda>i. if i < WS2812B_DATA_SIZE then 29 else 0" 0
        "WS2812B_DATA_SIZE + 50"]
    by (simp add: WS2812B_Clear_def)
  have d: "j < WS2812B_DATA_SIZE \<Longrightarrow> j div 24 < LED_NUM" for j
    by (simp add: WS2812B_DATA_SIZE_def LED_NUM_def)
  have l: "length (WS2812B_Clear buf) = length buf"
    by (simp add: WS2812B_Clear_def fold_update_length)
  show ?thesis
    using assms by (simp add: encodes_def l n d pulse_code_black)
qed

lemma set_pixel_encodes:
  assumes "encodes px buf" "unat pixel < LED_NUM"
  shows "encodes (px[unat pixel := (r, g, b)]) (WS2812B_SetPixelRGB pixel r g b buf)"
proof -
  have len: "length buf = WS2812B_DATA_SIZE + 50" "length px = LED_NUM"
    using assms(1) by (simp_all add: encodes_def)
  have in_px: "24 * unat pixel \<le> j \<and> j < 24 * unat pixel + 24 \<longleftrightarrow> j div 24 = unat pixel" for j
    by (auto simp: div_nat_eqI)
  have code: "j < WS2812B_DATA_SIZE \<Longrightarrow>
      WS2812B_SetPixelRGB pixel r g b buf ! j =
        pulse_code (grb_word (px[unat pixel := (r, g, b)] ! (j div 24))) (j mod 24)" for j
  proof -
    assume j: "j < WS2812B_DATA_SIZE"
    then have jl: "j < length buf" using len by simp
    have old: "buf ! j = pulse_code (grb_word (px ! (j div 24))) (j mod 24)"
      using assms(1) j by (simp add: encodes_def)
    show ?thesis
    proof (cases "j div 24 = unat pixel")
      case True
      then have "j - 24 * unat pixel = j mod 24"
        by (metis minus_mult_div_eq_mod)
      then show ?thesis
        using True assms(2) len set_pixel_nth [OF assms(2) jl, of r g b] in_px [of j]
        by simp
    next
      case False
      then show ?thesis
        using old set_pixel_nth [OF assms(2) jl, of r g b] in_px [of j] by simp
    qed
  qed
  have tail: "WS2812B_DATA_SIZE \<le> j \<and> j < WS2812B_DATA_SIZE + 50 \<Longrightarrow>
      WS2812B_SetPixelRGB pixel r g b buf ! j = 0" for j
  proof -
    assume j: "WS2812B_DATA_SIZE \<le> j \<and> j < WS2812B_DATA_SIZE + 50"
    then have jl: "j < length buf" using len by simp
    have "\<not> (24 * unat pixel \<le> j \<and> j < 24 * unat pixel + 24)"
      using j assms(2) by (simp add: WS2812B_DATA_SIZE_def LED_NUM_def)
    moreover have "buf ! j = 0" using assms(1) j by (simp add: encodes_def)
    ultimately show ?thesis
      using set_pixel_nth [OF assms(2) jl, of r g b] by auto
  qed
  show ?thesis
    using len code tail by (simp add: encodes_def set_pixel_length)
qed




lemma unat_led: "led < LED_NUM \<Longrightarrow> unat (of_nat led :: u16) = led"
  by (simp add: LED_NUM_def unat_of_nat)

lemma set_all_pixels:
  assumes "length buf = WS2812B_DATA_SIZE + 50" "n \<le> LED_NUM"
  shows "length (fold (\<lambda>led b'. WS2812B_SetPixelRGB (of_nat led) r g b b') [0..<n] buf)
           = WS2812B_DATA_SIZE + 50
       \<and> (\<forall>j < 24 * n.
            fold (\<lambda>led b'. WS2812B_SetPixelRGB (of_nat led) r g b b') [0..<n] buf ! j
              = pulse_code (grb_word (r, g, b)) (j mod 24))"
  using assms(2)
proof (induction n)
  case 0
  then show ?case using assms(1) by simp
next
  case (Suc n)
  let ?b = "fold (\<lambda>led b'. WS2812B_SetPixelRGB (of_nat led) r g b b') [0..<n] buf"
  have n: "n < LED_NUM" using Suc.prems by simp
  then have u: "unat (of_nat n :: u16) = n" by (rule unat_led)
  have ih: "length ?b = WS2812B_DATA_SIZE + 50"
    "\<And>j. j < 24 * n \<Longrightarrow> ?b ! j = pulse_code (grb_word (r, g, b)) (j mod 24)"
    using Suc.IH n by simp_all
  have pn: "unat (of_nat n :: u16) < LED_NUM" using n u by simp
  have step: "j < 24 * Suc n \<Longrightarrow>
      WS2812B_SetPixelRGB (of_nat n) r g b ?b ! j = pulse_code (grb_word (r, g, b)) (j mod 24)" for j
  proof -
    assume j: "j < 24 * Suc n"
    then have jl: "j < length ?b"
      using ih(1) n by (simp add: WS2812B_DATA_SIZE_def LED_NUM_def)
    show ?thesis
    proof (cases "j < 24 * n")
      case True
      then show ?thesis using set_pixel_nth [OF pn jl, of r g b] ih(2) u by simp
    next
      case False
      then have "j div 24 = n" using j by (auto simp: div_nat_eqI)
      then have "j - 24 * n = j mod 24" by (metis minus_mult_div_eq_mod)
      then show ?thesis using False j set_pixel_nth [OF pn jl, of r g b] u by simp
    qed
  qed
  show ?case
    using ih(1) step by (simp add: set_pixel_length)
qed

lemma set_color_encodes:
  assumes "length buf = WS2812B_DATA_SIZE + 50"
  shows "encodes (replicate LED_NUM (r, g, b)) (WS2812B_SetColorRGB r g b buf)"
proof -
  let ?b = "fold (\<lambda>led b'. WS2812B_SetPixelRGB (of_nat led) r g b b') [0..<LED_NUM] buf"
  have a: "length ?b = WS2812B_DATA_SIZE + 50"
    "\<And>j. j < WS2812B_DATA_SIZE \<Longrightarrow> ?b ! j = pulse_code (grb_word (r, g, b)) (j mod 24)"
    using set_all_pixels [OF assms, of LED_NUM r g b] by (simp_all add: WS2812B_DATA_SIZE_def)
  have e: "WS2812B_SetColorRGB r g b buf =
      fold (\<lambda>i b'. b'[i := 0]) [WS2812B_DATA_SIZE..<WS2812B_DATA_SIZE + 50] ?b"
    by (simp add: WS2812B_SetColorRGB_def Let_def)
  have n: "j < WS2812B_DATA_SIZE + 50 \<Longrightarrow>
      WS2812B_SetColorRGB r g b buf ! j = (if WS2812B_DATA_SIZE \<le> j then 0 else ?b ! j)" for j
    using a(1) fold_update_nth [of j ?b "\<lambda>i. 0" WS2812B_DATA_SIZE "WS2812B_DATA_SIZE + 50"]
    by (simp add: e)
  have l: "length (WS2812B_SetColorRGB r g b buf) = WS2812B_DATA_SIZE + 50"
    by (simp add: e fold_update_length a(1))
  have d: "j < WS2812B_DATA_SIZE \<Longrightarrow> j div 24 < LED_NUM" for j
    by (simp add: WS2812B_DATA_SIZE_def LED_NUM_def)
  show ?thesis
    by (simp add: encodes_def l n a(2) d)
qed

lemma apply_op_encodes:
  "encodes px buf \<Longrightarrow> encodes (written_op op px) (apply_op op buf)"
proof (cases op)
  case OpClear
  assume "encodes px buf"
  then have "length buf = WS2812B_DATA_SIZE + 50" by (simp add: encodes_def)
  then show ?thesis using OpClear clear_encodes [of buf] by simp
next
  case (OpSetPixelRGB pixel r g b)
  assume "encodes px buf"
  then show ?thesis
  proof (cases "unat pixel < LED_NUM")
    case True
    then show ?thesis
      using \<open>encodes px buf\<close> OpSetPixelRGB by (simp add: set_pixel_encodes)
  next
    case False
    then have "WS2812B_SetPixelRGB pixel r g b buf = buf"
      by (simp add: WS2812B_SetPixelRGB_def)
    then show ?thesis
      using False \<open>encodes px buf\<close> OpSetPixelRGB by simp
  qed
next
  case (OpSetColorRGB r g b)
  assume "encodes px buf"
  then have "length buf = WS2812B_DATA_SIZE + 50" by (simp add: encodes_def)
  then show ?thesis using OpSetColorRGB set_color_encodes [of buf r g b] by simp
qed

lemma fold_ops_encodes:
  "encodes px buf \<Longrightarrow> encodes (fold written_op ops px) (fold apply_op ops buf)"
  by (induction ops arbitrary: px buf) (simp_all add: apply_op_encodes)

lemma encodes_region:
  assumes "encodes px buf" "i < LED_NUM"
  shows "pixel_region buf i = map (pulse_code (grb_word (px ! i))) [0..<24]"
proof (rule nth_equalityI)
  have len: "length buf = WS2812B_DATA_SIZE + 50" using assms(1) by (simp add: encodes_def)
  show "length (pixel_region buf i) = length (map (pulse_code (grb_word (px ! i))) [0..<24])"
    using len assms(2) by (simp add: pixel_region_def WS2812B_DATA_SIZE_def LED_NUM_def)
  fix k
  assume "k < length (pixel_region buf i)"
  then have k: "k < 24" by (simp add: pixel_region_def)
  then have j: "24 * i + k < WS2812B_DATA_SIZE"
    using assms(2) by (simp add: WS2812B_DATA_SIZE_def LED_NUM_def)
  have "(24 * i + k) div 24 = i" "(24 * i + k) mod 24 = k" using k by simp_all
  then have "buf ! (24 * i + k) = pulse_code (grb_word (px ! i)) k"
    using assms(1) j by (simp add: encodes_def)
  then show "pixel_region buf i ! k = map (pulse_code (grb_word (px ! i))) [0..<24] ! k"
    using k len j by (simp add: pixel_region_def)
qed

lemma encodes_decode:
  assumes "encodes px buf" "i < LED_NUM"
  shows "decode_pixel buf i = Some (unat (grb_word (px ! i)))"
  by (simp add: decode_pixel_def encodes_region [OF assms] decode_pulse_codes)

lemma encodes_reset:
  assumes "encodes px buf"
  shows "reset_region buf = replicate 50 0"
proof (rule nth_equalityI)
  have len: "length buf = WS2812B_DATA_SIZE + 50" using assms by (simp add: encodes_def)
  show "length (reset_region buf) = length (replicate 50 (0 :: u16))"
    using len by (simp add: reset_region_def)
  fix k
  assume "k < length (reset_region buf)"
  then have k: "k < 50" using len by (simp add: reset_region_def)
  then show "reset_region buf ! k = replicate 50 0 ! k"
    using assms len by (simp add: reset_region_def encodes_def)
qed

subsection \<open>The buffer after any sequence of operations\<close>

lemma run_ops_encodes:
  assumes "length buf0 = WS2812B_DATA_SIZE + 50"
  shows "encodes (last_written ops) (run_ops ops (WS2812B_Clear buf0))"
  unfolding last_written_def run_ops_def
  by (rule fold_ops_encodes) (rule clear_encodes [OF assms])

lemma encodes_decode_all:
  assumes "encodes px buf"
  shows "map (decode_pixel buf) [0..<LED_NUM] =
           map (\<lambda>i. Some (unat (grb_word (px ! i)))) [0..<LED_NUM]"
  by (rule map_cong) (simp_all add: encodes_decode [OF assms])

text \<open>
  C4. Starting from a cleared buffer, after every finite sequence of clear, per-pixel RGB
  set and set-all operations the buffer still has its \<open>24 * 8 + 50\<close> codes, the last 50
  are zero, and each of the 8 pixel regions decodes, most significant bit first with 58
  as 1 and 29 as 0, to the GRB word of the colour last written to that pixel.
\<close>

theorem buffer_shape_invariant:
  "length buf0 = WS2812B_DATA_SIZE + 50 \<Longrightarrow>
     length (run_ops ops (WS2812B_Clear buf0)) = WS2812B_DATA_SIZE + 50
   \<and> reset_region (run_ops ops (WS2812B_Clear buf0)) = replicate 50 0
   \<and> map (decode_pixel (run_ops ops (WS2812B_Clear buf0))) [0..<LED_NUM]
       = map (\<lambda>i. Some (unat (grb_word (last_written ops ! i)))) [0..<LED_NUM]"
proof -
  assume "length buf0 = WS2812B_DATA_SIZE + 50"
  then have e: "encodes (last_written ops) (run_ops ops (WS2812B_Clear buf0))"
    by (rule run_ops_encodes)
  then have "length (run_ops ops (WS2812B_Clear buf0)) = WS2812B_DATA_SIZE + 50"
    by (simp add: encodes_def)
  then show ?thesis
    using encodes_reset [OF e] encodes_decode_all [OF e] by simp
qed

theorem buffer_shape_invariant_witness:
  "length (replicate 242 (0 :: u16)) = WS2812B_DATA_SIZE + 50
   \<and> length (run_ops [OpSetColorRGB 1 2 3, OpSetPixelRGB 2 255 0 0, OpSetPixelRGB 9 1 1 1,
         OpClear, OpSetPixelRGB 0 0 128 0] (WS2812B_Clear (replicate 242 0)))
       = WS2812B_DATA_SIZE + 50
   \<and> reset_region (run_ops [OpSetColorRGB 1 2 3, OpSetPixelRGB 2 255 0 0,
         OpSetPixelRGB 9 1 1 1, OpClear, OpSetPixelRGB 0 0 128 0]
         (WS2812B_Clear (replicate 242 0))) = replicate 50 0
   \<and> map (decode_pixel (run_ops [OpSetColorRGB 1 2 3, OpSetPixelRGB 2 255 0 0,
         OpSetPixelRGB 9 1 1 1, OpClear, OpSetPixelRGB 0 0 128 0]
         (WS2812B_Clear (replicate 242 0)))) [0..<LED_NUM]
       = map (\<lambda>i. Some (unat (grb_word (last_written [OpSetColorRGB 1 2 3,
           OpSetPixelRGB 2 255 0 0, OpSetPixelRGB 9 1 1 1, OpClear,
           OpSetPixelRGB 0 0 128 0] ! i)))) [0..<LED_NUM]"
proof -
  have h: "length (replicate 242 (0 :: u16)) = WS2812B_DATA_SIZE + 50"
    by (simp add: WS2812B_DATA_SIZE_def LED_NUM_def)
  show ?thesis
    by (rule conjI [OF h buffer_shape_invariant [OF h]])
qed

subsection \<open>Setting the whole strip in HSV\<close>

lemma hsv_120_100_50: "hsv_to_rgb 120 100 50 = (0, 127, 0)"
  by (simp add: hsv_to_rgb_def Let_def)

lemma grb_green_127: "unat (grb_word (0, 127, 0)) = 8323072"
  by (simp add: grb_word_def)

lemma grb_green_128: "unat (grb_word (0, 128, 0)) = 8388608"
  by (simp add: grb_word_def)

lemma set_all_hsv_sent:
  assumes "length buf = WS2812B_DATA_SIZE + 50"
  shows "WS2812B_Send (WS2812B_SetColorHSV 120 100 50 buf) = WS2812B_SetColorRGB 0 127 0 buf"
    and "encodes (replicate LED_NUM (0, 127, 0)) (WS2812B_SetColorRGB 0 127 0 buf)"
proof -
  show e: "encodes (replicate LED_NUM (0, 127, 0)) (WS2812B_SetColorRGB 0 127 0 buf)"
    by (rule set_color_encodes [OF assms])
  then have "length (WS2812B_SetColorRGB 0 127 0 buf) = WS2812B_DATA_SIZE + 50"
    by (simp add: encodes_def)
  then show "WS2812B_Send (WS2812B_SetColorHSV 120 100 50 buf) = WS2812B_SetColorRGB 0 127 0 buf"
    by (simp add: WS2812B_Send_def WS2812B_SetColorHSV_def hsv_120_100_50)
qed

text \<open>
  C1, as the code has it. \<open>HSV(120,100,50)\<close> converts to \<open>RGB(0,127,0)\<close>, since
  \<open>50 * 255 div 100 = 127\<close>. Setting the whole strip to it and sending hands over
  \<open>24 * 8 + 50\<close> codes in which each of the 8 pixel regions decodes to the GRB word of
  \<open>(0,127,0)\<close>, that is \<open>127 * 65536\<close>, and the last 50 codes are zero.
\<close>

theorem set_all_hsv_green:
  "length buf = WS2812B_DATA_SIZE + 50 \<Longrightarrow>
     hsv_to_rgb 120 100 50 = (0, 127, 0)
   \<and> length (WS2812B_Send (WS2812B_SetColorHSV 120 100 50 buf)) = 24 * 8 + 50
   \<and> map (decode_pixel (WS2812B_Send (WS2812B_SetColorHSV 120 100 50 buf))) [0..<8]
       = replicate 8 (Some (unat (grb_word (0, 127, 0))))
   \<and> unat (grb_word (0, 127, 0)) = 127 * 65536
   \<and> drop (24 * 8) (WS2812B_Send (WS2812B_SetColorHSV 120 100 50 buf)) = replicate 50 0"
proof -
  assume len: "length buf = WS2812B_DATA_SIZE + 50"
  let ?sent = "WS2812B_Send (WS2812B_SetColorHSV 120 100 50 buf)"
  have e: "encodes (replicate LED_NUM (0, 127, 0)) ?sent"
    using set_all_hsv_sent [OF len] by simp
  have l: "length ?sent = 24 * 8 + 50"
    using e by (simp add: encodes_def WS2812B_DATA_SIZE_def LED_NUM_def)
  have "map (decode_pixel ?sent) [0..<LED_NUM] =
          map (\<lambda>i. Some (unat (grb_word (replicate LED_NUM (0, 127, 0) ! i)))) [0..<LED_NUM]"
    by (rule encodes_decode_all [OF e])
  also have "\<dots> = map (\<lambda>i. Some (unat (grb_word (0, 127, 0)))) [0..<LED_NUM]"
    by (rule map_cong) simp_all
  also have "\<dots> = replicate 8 (Some (unat (grb_word (0, 127, 0))))"
    by (simp add: map_replicate_const LED_NUM_def)
  finally have d: "map (decode_pixel ?sent) [0..<8] =
      replicate 8 (Some (unat (grb_word (0, 127, 0))))"
    by (simp add: LED_NUM_def)
  have r: "drop (24 * 8) ?sent = replicate 50 0"
    using encodes_reset [OF e] by (simp add: reset_region_def WS2812B_DATA_SIZE_def LED_NUM_def)
  show ?thesis
    using l d r by (simp only: hsv_120_100_50 grb_green_127) simp
qed

theorem set_all_hsv_green_witness:
  "length (replicate 242 (0 :: u16)) = WS2812B_DATA_SIZE + 50
   \<and> hsv_to_rgb 120 100 50 = (0, 127, 0)
   \<and> length (WS2812B_Send (WS2812B_SetColorHSV 120 100 50 (replicate 242 0))) = 24 * 8 + 50
   \<and> map (decode_pixel (WS2812B_Send (WS2812B_SetColorHSV 120 100 50 (replicate 242 0))))
         [0..<8]
       = replicate 8 (Some (unat (grb_word (0, 127, 0))))
   \<and> unat (grb_word (0, 127, 0)) = 127 * 65536
   \<and> drop (24 * 8) (WS2812B_Send (WS2812B_SetColorHSV 120 100 50 (replicate 242 0)))
       = replicate 50 0"
proof -
  have h: "length (replicate 242 (0 :: u16)) = WS2812B_DATA_SIZE + 50"
    by (simp add: WS2812B_DATA_SIZE_def LED_NUM_def)
  show ?thesis
    by (rule conjI [OF h set_all_hsv_green [OF h]])
qed

text \<open>
  C1 as stated fails: on a zeroed buffer the first pixel region decodes to the GRB word
  of \<open>(0,127,0)\<close>, which is not that of \<open>(0,128,0)\<close>.
\<close>

theorem set_all_hsv_green_128_counterexample:
  "decode_pixel (WS2812B_Send (WS2812B_SetColorHSV 120 100 50 (replicate 242 0))) 0
     \<noteq> Some (unat (grb_word (0, 128, 0)))
   \<and> hsv_to_rgb 120 100 50 \<noteq> (0, 128, 0)"
proof -
  have h: "length (replicate 242 (0 :: u16)) = WS2812B_DATA_SIZE + 50"
    by (simp add: WS2812B_DATA_SIZE_def LED_NUM_def)
  have e: "encodes (replicate LED_NUM (0, 127, 0))
      (WS2812B_Send (WS2812B_SetColorHSV 120 100 50 (replicate 242 0)))"
    using set_all_hsv_sent [OF h] by simp
  have "decode_pixel (WS2812B_Send (WS2812B_SetColorHSV 120 100 50 (replicate 242 0))) 0
      = Some (unat (grb_word (replicate LED_NUM (0, 127, 0) ! 0)))"
    by (rule encodes_decode [OF e]) (simp add: LED_NUM_def)
  then show ?thesis
    by (simp add: LED_NUM_def grb_green_127 grb_green_128 hsv_120_100_50)
qed

section \<open>Properties of the effect engine\<close>

subsection \<open>Delays\<close>














subsection \<open>Auto-cycling\<close>

lemma effect_cycle: "effect_of_value ((effect_value e + 1) mod 6) = next_effect e"
  by (cases e) (simp_all add: effect_of_value_def)

lemma rainbow_no_clear: "WS2812_Clear \<notin> set (snd (WS2812B_Rainbow cs st))"
  by (cases cs) (auto simp: WS2812B_Rainbow_def Let_def rainbow_pixel_rgb_def)

lemma rainbow_last_cycle: "last_cycle (fst (WS2812B_Rainbow cs st)) = last_cycle st"
  by (simp add: WS2812B_Rainbow_def Let_def)

lemma breathe_no_clear: "WS2812_Clear \<notin> set (snd (WS2812B_Breathe cs a b c st))"
  by (cases cs) (auto simp: WS2812B_Breathe_def Let_def)

lemma breathe_last_cycle: "last_cycle (fst (WS2812B_Breathe cs a b c st)) = last_cycle st"
  by (simp add: WS2812B_Breathe_def Let_def)

text \<open>
  C6. On a tick of the engine, if auto-cycle is enabled and the tick count less
  \<^verbatim>\<open>last_cycle\<close> (unsigned 32-bit) exceeds the cycle duration, the current effect becomes
  the next one in the order StaticColor, RainbowChase, Fire, Breathe, TheaterChase,
  Twinkle, StaticColor, the first call made is the clearing of the frame buffer, and
  \<^verbatim>\<open>last_cycle\<close> is set to the tick count; otherwise the current effect and \<^verbatim>\<open>last_cycle\<close>
  stay as they are and the buffer is not cleared.
\<close>

theorem effects_handle_auto_cycle:
  "(auto_cycle e \<and> cycle_duration e < tick - last_cycle st \<longrightarrow>
      (case WS2812B_Effects_Handle e st tick tick' of (e', st', calls) \<Rightarrow>
         current_effect e' = next_effect (current_effect e)
         \<and> hd calls = WS2812_Clear \<and> last_cycle st' = tick'))
   \<and> (\<not> (auto_cycle e \<and> cycle_duration e < tick - last_cycle st) \<longrightarrow>
      (case WS2812B_Effects_Handle e st tick tick' of (e', st', calls) \<Rightarrow>
         current_effect e' = current_effect e
         \<and> WS2812_Clear \<notin> set calls \<and> last_cycle st' = last_cycle st))"
proof (intro conjI impI)
  assume due: "auto_cycle e \<and> cycle_duration e < tick - last_cycle st"
  then have d: "cycle_due e st tick" by (simp add: cycle_due_def)
  show "case WS2812B_Effects_Handle e st tick tick' of (e', st', calls) \<Rightarrow>
         current_effect e' = next_effect (current_effect e)
         \<and> hd calls = WS2812_Clear \<and> last_cycle st' = tick'"
    by (cases "current_effect e")
      (simp_all add: WS2812B_Effects_Handle_def Let_def d effect_of_value_def case_prod_beta
        WS2812B_SolidColor_def WS2812B_Fire_def rainbow_last_cycle breathe_last_cycle)
next
  assume nd: "\<not> (auto_cycle e \<and> cycle_duration e < tick - last_cycle st)"
  then have d: "\<not> cycle_due e st tick" by (simp add: cycle_due_def)
  show "case WS2812B_Effects_Handle e st tick tick' of (e', st', calls) \<Rightarrow>
         current_effect e' = current_effect e
         \<and> WS2812_Clear \<notin> set calls \<and> last_cycle st' = last_cycle st"
    by (cases "current_effect e")
      (simp_all add: WS2812B_Effects_Handle_def Let_def d case_prod_beta
        WS2812B_SolidColor_def WS2812B_Fire_def rainbow_last_cycle breathe_last_cycle
        rainbow_no_clear breathe_no_clear)
qed

theorem effects_handle_auto_cycle_witness:
  "(auto_cycle \<lparr>current_effect = EFFECT_TWINKLE, hue = 0, brightness = 50,
        breathe_direction = 1, theater_frame = 0, effect_speed = 50, auto_cycle = True,
        cycle_duration = 5000\<rparr>
      \<and> cycle_duration \<lparr>current_effect = EFFECT_TWINKLE, hue = 0, brightness = 50,
        breathe_direction = 1, theater_frame = 0, effect_speed = 50, auto_cycle = True,
        cycle_duration = 5000\<rparr> < 6000 - last_cycle initial_statics)
   \<and> (case WS2812B_Effects_Handle \<lparr>current_effect = EFFECT_TWINKLE, hue = 0,
        brightness = 50, breathe_direction = 1, theater_frame = 0, effect_speed = 50,
        auto_cycle = True, cycle_duration = 5000\<rparr> initial_statics 6000 6001 of
        (e', st', calls) \<Rightarrow>
          current_effect e' = EFFECT_STATIC_COLOR
          \<and> hd calls = WS2812_Clear \<and> last_cycle st' = 6001)
   \<and> \<not> (auto_cycle \<lparr>current_effect = EFFECT_TWINKLE, hue = 0, brightness = 50,
        breathe_direction = 1, theater_frame = 0, effect_speed = 50, auto_cycle = True,
        cycle_duration = 5000\<rparr>
      \<and> cycle_duration \<lparr>current_effect = EFFECT_TWINKLE, hue = 0, brightness = 50,
        breathe_direction = 1, theater_frame = 0, effect_speed = 50, auto_cycle = True,
        cycle_duration = 5000\<rparr> < 100 - last_cycle initial_statics)
   \<and> (case WS2812B_Effects_Handle \<lparr>current_effect = EFFECT_TWINKLE, hue = 0,
        brightness = 50, breathe_direction = 1, theater_frame = 0, effect_speed = 50,
        auto_cycle = True, cycle_duration = 5000\<rparr> initial_statics 100 100 of
        (e', st', calls) \<Rightarrow>
          current_effect e' = EFFECT_TWINKLE
          \<and> WS2812_Clear \<notin> set calls \<and> last_cycle st' = 0)"
  using effects_handle_auto_cycle [of "\<lparr>current_effect = EFFECT_TWINKLE, hue = 0,
        brightness = 50, breathe_direction = 1, theater_frame = 0, effect_speed = 50,
        auto_cycle = True, cycle_duration = 5000\<rparr>" 6000 initial_statics 6001]
    effects_handle_auto_cycle [of "\<lparr>current_effect = EFFECT_TWINKLE, hue = 0,
        brightness = 50, breathe_direction = 1, theater_frame = 0, effect_speed = 50,
        auto_cycle = True, cycle_duration = 5000\<rparr>" 100 initial_statics 100]
  by (simp add: initial_statics_def)

subsection \<open>The breathe ramp\<close>

lemma uint_byte: "0 \<le> k \<Longrightarrow> k < 256 \<Longrightarrow> uint (word_of_int k :: u8) = k"
  by (simp add: uint_word_of_int_eq take_bit_int_eq_self)

lemma breathe_fields:
  "breathe_val (fst (WS2812B_Breathe cs h s v st)) =
     word_of_int (uint (breathe_val st) + sint (breathe_dir st))"
  "breathe_dir (fst (WS2812B_Breathe cs h s v st)) =
     (if 90 \<le> (word_of_int (uint (breathe_val st) + sint (breathe_dir st)) :: u8)
         \<or> (word_of_int (uint (breathe_val st) + sint (breathe_dir st)) :: u8) \<le> 10
      then word_of_int (- sint (breathe_dir st)) else breathe_dir st)"
  by (simp_all add: WS2812B_Breathe_def Let_def)

lemma breathe_up:
  assumes "breathe_inv st" "breathe_dir st = 1"
  shows "uint (breathe_val (fst (WS2812B_Breathe cs h s v st))) = uint (breathe_val st) + 1"
    and "breathe_dir (fst (WS2812B_Breathe cs h s v st)) =
           (if uint (breathe_val st) = 89 then - 1 else 1)"
proof -
  let ?a = "uint (breathe_val st)"
  have e: "(breathe_val st = 90) = (?a = 90)" by (simp add: word_uint_eq_iff)
  have r: "10 \<le> ?a" "?a \<le> 90" "?a \<noteq> 90"
    using assms e by (auto simp: breathe_inv_def word_le_def)
  have s1: "sint (breathe_dir st) = 1" "sint (1 :: u8) = 1" using assms(2) by simp_all
  have u: "uint (word_of_int (?a + 1) :: u8) = ?a + 1"
    using r by (intro uint_byte) simp_all
  show "uint (breathe_val (fst (WS2812B_Breathe cs h s v st))) = ?a + 1"
    by (simp only: breathe_fields s1 u)
  have le: "(90 \<le> (word_of_int (?a + 1) :: u8)) = (90 \<le> ?a + 1)"
    "((word_of_int (?a + 1) :: u8) \<le> 10) = (?a + 1 \<le> 10)"
    by (simp_all only: word_le_def u) simp_all
  have "(if 90 \<le> ?a + 1 \<or> ?a + 1 \<le> 10 then (word_of_int (- 1) :: u8) else 1) =
          (if ?a = 89 then - 1 else 1)"
    using r by auto
  then show "breathe_dir (fst (WS2812B_Breathe cs h s v st)) = (if ?a = 89 then - 1 else 1)"
    by (simp only: breathe_fields s1 le assms(2))
qed

lemma breathe_down:
  assumes "breathe_inv st" "breathe_dir st = - 1"
  shows "uint (breathe_val (fst (WS2812B_Breathe cs h s v st))) = uint (breathe_val st) - 1"
    and "breathe_dir (fst (WS2812B_Breathe cs h s v st)) =
           (if uint (breathe_val st) = 11 then 1 else - 1)"
proof -
  let ?a = "uint (breathe_val st)"
  have e: "(breathe_val st = 10) = (?a = 10)" by (simp add: word_uint_eq_iff)
  have r: "10 \<le> ?a" "?a \<le> 90" "?a \<noteq> 10"
    using assms e by (auto simp: breathe_inv_def word_le_def)
  have s1: "sint (breathe_dir st) = - 1" "sint (- 1 :: u8) = - 1" using assms(2) by simp_all
  have u: "uint (word_of_int (?a + - 1) :: u8) = ?a - 1"
    using r uint_byte [of "?a - 1"] by simp
  show "uint (breathe_val (fst (WS2812B_Breathe cs h s v st))) = ?a - 1"
    by (simp only: breathe_fields s1 u)
  have le: "(90 \<le> (word_of_int (?a + - 1) :: u8)) = (90 \<le> ?a - 1)"
    "((word_of_int (?a + - 1) :: u8) \<le> 10) = (?a - 1 \<le> 10)"
    by (simp_all only: word_le_def u) simp_all
  have "(if 90 \<le> ?a - 1 \<or> ?a - 1 \<le> 10 then (word_of_int (- (- 1)) :: u8) else - 1) =
          (if ?a = 11 then 1 else - 1)"
    using r by auto
  then show "breathe_dir (fst (WS2812B_Breathe cs h s v st)) = (if ?a = 11 then 1 else - 1)"
    by (simp only: breathe_fields s1 le assms(2))
qed


lemma breathe_inv_step:
  assumes "breathe_inv st"
  shows "breathe_inv (fst (WS2812B_Breathe cs h s v st))"
proof -
  let ?st' = "fst (WS2812B_Breathe cs h s v st)"
  have e: "(breathe_val ?st' = 90) = (uint (breathe_val ?st') = 90)"
    "(breathe_val ?st' = 10) = (uint (breathe_val ?st') = 10)"
    "(breathe_val st = 90) = (uint (breathe_val st) = 90)"
    "(breathe_val st = 10) = (uint (breathe_val st) = 10)"
    by (simp_all add: word_uint_eq_iff)
  have r: "10 \<le> uint (breathe_val st)" "uint (breathe_val st) \<le> 90"
    using assms by (simp_all add: breathe_inv_def word_le_def)
  from assms have "breathe_dir st = 1 \<or> breathe_dir st = - 1"
    by (simp add: breathe_inv_def)
  then show ?thesis
  proof
    assume d: "breathe_dir st = 1"
    have "uint (breathe_val st) \<noteq> 90" using assms d e by (auto simp: breathe_inv_def)
    then show ?thesis
      using r breathe_up [OF assms d, of cs h s v]
      by (simp add: breathe_inv_def word_le_def e)
  next
    assume d: "breathe_dir st = - 1"
    have "uint (breathe_val st) \<noteq> 10" using assms d e by (auto simp: breathe_inv_def)
    then show ?thesis
      using r breathe_down [OF assms d, of cs h s v]
      by (simp add: breathe_inv_def word_le_def e)
  qed
qed

lemma breathe_inv_initial: "breathe_inv initial_statics"
  by (simp add: breathe_inv_def initial_statics_def)

lemma breathe_inv_ticks: "breathe_inv st \<Longrightarrow> breathe_inv (breathe_ticks as st)"
  by (induction as st rule: breathe_ticks.induct) (simp_all add: breathe_inv_step)

lemma breathe_turn:
  assumes "breathe_inv st"
  shows "(breathe_dir (fst (WS2812B_Breathe cs h s v st)) = - breathe_dir st) =
           (breathe_val (fst (WS2812B_Breathe cs h s v st)) = 10
            \<or> breathe_val (fst (WS2812B_Breathe cs h s v st)) = 90)"
    and "(breathe_dir (fst (WS2812B_Breathe cs h s v st)) = breathe_dir st) =
           (breathe_val (fst (WS2812B_Breathe cs h s v st)) \<noteq> 10
            \<and> breathe_val (fst (WS2812B_Breathe cs h s v st)) \<noteq> 90)"
proof -
  let ?st' = "fst (WS2812B_Breathe cs h s v st)"
  have e: "(breathe_val ?st' = 90) = (uint (breathe_val ?st') = 90)"
    "(breathe_val ?st' = 10) = (uint (breathe_val ?st') = 10)"
    "(breathe_val st = 90) = (uint (breathe_val st) = 90)"
    "(breathe_val st = 10) = (uint (breathe_val st) = 10)"
    by (simp_all add: word_uint_eq_iff)
  have r: "10 \<le> uint (breathe_val st)" "uint (breathe_val st) \<le> 90"
    using assms by (simp_all add: breathe_inv_def word_le_def)
  from assms have c: "breathe_dir st = 1 \<or> breathe_dir st = - 1"
    by (simp add: breathe_inv_def)
  show "(breathe_dir ?st' = - breathe_dir st) = (breathe_val ?st' = 10 \<or> breathe_val ?st' = 90)"
    using c
  proof
    assume d: "breathe_dir st = 1"
    show ?thesis using r breathe_up [OF assms d, of cs h s v] by (simp add: e d)
  next
    assume d: "breathe_dir st = - 1"
    show ?thesis using r breathe_down [OF assms d, of cs h s v] by (simp add: e d)
  qed
  show "(breathe_dir ?st' = breathe_dir st) = (breathe_val ?st' \<noteq> 10 \<and> breathe_val ?st' \<noteq> 90)"
    using c
  proof
    assume d: "breathe_dir st = 1"
    show ?thesis using r breathe_up [OF assms d, of cs h s v] by (simp add: e d)
  next
    assume d: "breathe_dir st = - 1"
    show ?thesis using r breathe_down [OF assms d, of cs h s v] by (simp add: e d)
  qed
qed

text \<open>
  C9. From the initial breathe state (value 50, direction +1), after any number of
  Breathe ticks with any arguments, one more tick leaves the value within \<open>[10,90]\<close> and
  the direction +1 or -1; the tick inverts the direction exactly when the new value is 10
  or 90, and keeps it otherwise.
\<close>

theorem breathe_ramp_bounds:
  "(let st = breathe_ticks as initial_statics;
        st' = fst (WS2812B_Breathe cs h s v st)
    in 10 \<le> breathe_val st' \<and> breathe_val st' \<le> 90
       \<and> (sint (breathe_dir st') = 1 \<or> sint (breathe_dir st') = - 1)
       \<and> ((breathe_dir st' = - breathe_dir st) = (breathe_val st' = 10 \<or> breathe_val st' = 90))
       \<and> ((breathe_dir st' = breathe_dir st) = (breathe_val st' \<noteq> 10 \<and> breathe_val st' \<noteq> 90)))"
proof -
  let ?st = "breathe_ticks as initial_statics"
  let ?st' = "fst (WS2812B_Breathe cs h s v ?st)"
  have i: "breathe_inv ?st" by (rule breathe_inv_ticks [OF breathe_inv_initial])
  then have i': "breathe_inv ?st'" by (rule breathe_inv_step)
  have "sint (breathe_dir ?st') = 1 \<or> sint (breathe_dir ?st') = - 1"
    using i' by (auto simp: breathe_inv_def)
  then show ?thesis
    using i' breathe_turn [OF i, of cs h s v] by (simp add: Let_def breathe_inv_def)
qed

end
